theory Spec2Isabelle
  imports Main "HOL-Library.Word"
begin

section \<open>JavaScript strings\<close>

text \<open>
  A JavaScript string is a sequence of 16-bit code units. All the string operations used by
  \<^verbatim>\<open>content-collections.ts\<close> and \<^verbatim>\<open>rehype-npm-command.ts\<close> (\<^verbatim>\<open>replace\<close>, \<^verbatim>\<open>split\<close>,
  \<^verbatim>\<open>join\<close>, \<^verbatim>\<open>trim\<close>, \<^verbatim>\<open>startsWith\<close>, regular expressions without the \<^verbatim>\<open>u\<close> flag) work on
  code units, so the model does too. \<open>str\<close> turns an ASCII literal into such a string.
\<close>

type_synonym jschar = "16 word"
type_synonym jsstring = "jschar list"

definition str :: "string \<Rightarrow> jsstring" where
  "str s = map of_char s"

definition slash :: jschar where
  "slash = 0x2F"

definition backslash :: jschar where
  "backslash = 0x5C"

text \<open>\<^verbatim>\<open>s.replace(/\\/g, "/")\<close>: every backslash becomes a forward slash.\<close>

definition normalize_separators :: "jsstring \<Rightarrow> jsstring" where
  "normalize_separators s = map (\<lambda>c. if c = backslash then slash else c) s"

text \<open>
  \<^verbatim>\<open>s.split(sep)\<close> for a one-character separator: the pieces between the occurrences of the
  separator; the empty string gives one empty piece.
\<close>

fun split_on :: "jschar \<Rightarrow> jsstring \<Rightarrow> jsstring list" where
  "split_on sep [] = [[]]"
| "split_on sep (c # cs) =
     (if c = sep then [] # split_on sep cs
      else (case split_on sep cs of
              p # ps \<Rightarrow> (c # p) # ps
            | [] \<Rightarrow> [[c]]))"

text \<open>\<^verbatim>\<open>parts.join(sep)\<close>.\<close>

fun join :: "jsstring \<Rightarrow> jsstring list \<Rightarrow> jsstring" where
  "join sep [] = []"
| "join sep [p] = p"
| "join sep (p # q # ps) = p @ sep @ join sep (q # ps)"

text \<open>\<^verbatim>\<open>s.startsWith(p)\<close> and its mirror image at the end of the string.\<close>

definition startsWith :: "jsstring \<Rightarrow> jsstring \<Rightarrow> bool" where
  "startsWith s p \<longleftrightarrow> take (length p) s = p"

definition endsWith :: "jsstring \<Rightarrow> jsstring \<Rightarrow> bool" where
  "endsWith s p \<longleftrightarrow> length p \<le> length s \<and> drop (length s - length p) s = p"

text \<open>
  \<^verbatim>\<open>s.replace(/<pat>$/, "")\<close> for a literal pattern: without the \<^verbatim>\<open>m\<close> flag \<^verbatim>\<open>$\<close> matches
  at the end of the input only, so the one possible match is a suffix of \<open>s\<close>.
  \<^verbatim>\<open>s.replace(/^<pat>$/, "")\<close> matches the whole string or nothing.
\<close>

definition remove_at_end :: "jsstring \<Rightarrow> jsstring \<Rightarrow> jsstring" where
  "remove_at_end pat s = (if endsWith s pat then take (length s - length pat) s else s)"

definition remove_whole :: "jsstring \<Rightarrow> jsstring \<Rightarrow> jsstring" where
  "remove_whole pat s = (if s = pat then [] else s)"

text \<open>
  \<^verbatim>\<open>s.replace(pat, rep)\<close> with a string pattern: the first occurrence of \<open>pat\<close> is replaced.
  The replacement strings of the source contain no \<^verbatim>\<open>$\<close>, so \<open>rep\<close> is inserted literally.
\<close>

fun replace_first :: "jsstring \<Rightarrow> jsstring \<Rightarrow> jsstring \<Rightarrow> jsstring" where
  "replace_first pat rep [] = (if pat = [] then rep else [])"
| "replace_first pat rep (c # cs) =
     (if startsWith (c # cs) pat then rep @ drop (length pat) (c # cs)
      else c # replace_first pat rep cs)"

text \<open>
  White space as \<^verbatim>\<open>\s\<close> and \<^verbatim>\<open>trim\<close> see it: the WhiteSpace and LineTerminator code points
  of ECMAScript, all of them single code units.
\<close>

definition isSpace :: "jschar \<Rightarrow> bool" where
  "isSpace c \<longleftrightarrow>
     c = 0x9 \<or> c = 0xA \<or> c = 0xB \<or> c = 0xC \<or> c = 0xD \<or> c = 0x20 \<or> c = 0xA0 \<or>
     c = 0x1680 \<or> (0x2000 \<le> c \<and> c \<le> 0x200A) \<or> c = 0x2028 \<or> c = 0x2029 \<or>
     c = 0x202F \<or> c = 0x205F \<or> c = 0x3000 \<or> c = 0xFEFF"

definition trim :: "jsstring \<Rightarrow> jsstring" where
  "trim s = rev (dropWhile isSpace (rev (dropWhile isSpace s)))"

text \<open>
  \<^verbatim>\<open>s.split(/\s+/)\<close>: every maximal run of white space is one separator; a run at the start
  or at the end leaves an empty piece there, and the empty string gives one empty piece.
\<close>

function split_ws :: "jsstring \<Rightarrow> jsstring list" where
  "split_ws [] = [[]]"
| "split_ws (c # cs) =
     (if isSpace c then [] # split_ws (dropWhile isSpace cs)
      else (case split_ws cs of
              p # ps \<Rightarrow> (c # p) # ps
            | [] \<Rightarrow> [[c]]))"
  by pat_completeness auto
termination
  by (relation "measure length") (auto simp: less_Suc_eq_le length_dropWhile_le)

text \<open>
  \<^verbatim>\<open>Math.ceil(n / d)\<close> for a count \<open>n\<close> and \<open>d = 200\<close>. The quotient of the source is a
  double; for every \<open>n\<close> a string length can reach (below \<open>2^53\<close>) the nearest integer is
  at least \<open>1/200\<close> away from a non-integral quotient, far more than the rounding error, so
  the result is the exact integer ceiling.
\<close>

definition ceil_div :: "nat \<Rightarrow> nat \<Rightarrow> nat" where
  "ceil_div n d = (n + d - 1) div d"

section \<open>Source documents and compiled records\<close>

text \<open>
  \<open>meta\<close> is the \<^verbatim>\<open>_meta\<close> object that the collection framework attaches to every
  document; its paths are relative to the collection's \<^verbatim>\<open>directory\<close>
  (\<^verbatim>\<open>../content/docs\<close>, \<^verbatim>\<open>../content/blog\<close>), and \<open>path\<close> is the file path without its
  extension. The front-matter fields follow the two \<^verbatim>\<open>z.object\<close> schemas.
\<close>

record meta =
  filePath :: jsstring
  fileName :: jsstring
  directory :: jsstring
  path :: jsstring
  extension :: jsstring

record doc_links =
  link_doc :: "jsstring option"
  link_blog :: "jsstring option"
  link_api :: "jsstring option"
  link_source :: "jsstring option"

record document =
  title :: jsstring
  links :: "doc_links option"
  content :: jsstring
  meta :: meta

record docs_document = document +
  description :: "jsstring option"
  toc :: bool

record blog_document = document +
  excerpt :: jsstring
  date :: jsstring
  author_id :: "jsstring option"
  og_image :: "jsstring option"
  tags :: "jsstring list"

text \<open>
  The compiled record. \<open>source\<close> holds the fields that \<^verbatim>\<open>...doc\<close> spreads into it;
  \<open>compat_id\<close>, \<open>compat_raw\<close> and \<open>body\<close> are \<^verbatim>\<open>_id\<close>, \<^verbatim>\<open>_raw\<close> and \<^verbatim>\<open>body\<close>.
\<close>

record raw_compat =
  sourceFilePath :: jsstring
  sourceFileName :: jsstring
  sourceFileDir :: jsstring
  flattenedPath :: jsstring
  contentType :: jsstring

record body_compat =
  body_raw :: jsstring
  body_code :: jsstring

record 'd compiled =
  source :: 'd
  mdx :: jsstring
  slug :: jsstring
  slugAsParams :: jsstring
  compat_id :: jsstring
  compat_raw :: raw_compat
  body :: body_compat

text \<open>
  \<^verbatim>\<open>compileMDX\<close> belongs to the framework. It either returns the compiled code or throws,
  and then \<^verbatim>\<open>transform\<close> throws with it: the transforms take it as a parameter.
\<close>

datatype error = CompileError | TypeError

type_synonym 'd compileMDX = "'d \<Rightarrow> error + jsstring"

section \<open>The docs collection\<close>

definition docs_cleanPath :: "jsstring \<Rightarrow> jsstring" where
  "docs_cleanPath normalizedPath =
     remove_whole (str ''index'') (remove_at_end (str ''/index'') normalizedPath)"

text \<open>
  The transform of the docs collection, from \<^verbatim>\<open>await compileMDX(...)\<close> to the returned
  record. \<^verbatim>\<open>split\<close> never returns an empty array, so \<^verbatim>\<open>split("/")[0]\<close> is its head.
\<close>

definition docs_transform ::
  "docs_document compileMDX \<Rightarrow> docs_document \<Rightarrow> error + docs_document compiled" where
  "docs_transform compile d =
     (case compile d of
        Inl e \<Rightarrow> Inl e
      | Inr code \<Rightarrow>
          (let normalizedPath = normalize_separators (path (meta d));
               cleanPath = docs_cleanPath normalizedPath;
               slugAsParams' =
                 (if cleanPath \<noteq> [] then cleanPath else hd (split_on slash normalizedPath))
           in Inr \<lparr> source = d,
                    mdx = code,
                    slug = (if cleanPath \<noteq> [] then slash # cleanPath
                            else slash # hd (split_on slash normalizedPath)),
                    slugAsParams = slugAsParams',
                    compat_id = filePath (meta d),
                    compat_raw =
                      \<lparr> sourceFilePath = filePath (meta d),
                        sourceFileName = fileName (meta d),
                        sourceFileDir = directory (meta d),
                        flattenedPath = normalizedPath,
                        contentType = str ''mdx'' \<rparr>,
                    body = \<lparr> body_raw = content d, body_code = code \<rparr> \<rparr>))"

section \<open>The blog collection\<close>

text \<open>The entries of \<^verbatim>\<open>blogConfig.authors\<close>; \<open>bio\<close> maps a locale to a text.\<close>

record social =
  github :: jsstring
  twitter :: jsstring
  youtube :: jsstring
  linkedin :: jsstring

record author_entry =
  ident :: jsstring
  name :: jsstring
  image_path :: jsstring
  site :: jsstring
  email :: jsstring
  bio :: "(jsstring \<times> jsstring) list option"
  social :: social

text \<open>
  The \<^verbatim>\<open>author\<close> field of a compiled post, a
  \<^verbatim>\<open>Partial<BlogConfig["authors"][number]> & { bio?: string }\<close>: every field may be missing.
  The bio is what \<^verbatim>\<open>bio?.[locale] || bio?.vi\<close> evaluates to: \<^verbatim>\<open>undefined\<close>, a text of the
  bio object, or a member that the bio object inherits from \<^verbatim>\<open>Object.prototype\<close> (a function,
  or the prototype itself for \<^verbatim>\<open>__proto__\<close>), named by its key.
\<close>

datatype bio_value = NoBio | BioText jsstring | Inherited jsstring

record compiled_author =
  au_id :: "jsstring option"
  au_name :: "jsstring option"
  au_image :: "jsstring option"
  au_site :: "jsstring option"
  au_email :: "jsstring option"
  au_bio :: bio_value
  au_social :: "social option"

record 'd blog_compiled = "'d compiled" +
  readTimeInMinutes :: nat
  author :: compiled_author

definition blogConfig_authors :: "author_entry list" where
  "blogConfig_authors =
     [\<lparr> ident = str ''huynhsang'',
        name = str ''Hu'' @ [0x1EF3] @ str ''nh Sang'',
        image_path = str ''/authors/huynhsang.jpg'',
        site = str ''https://github.com/HuynhSang2005'',
        email = str ''huynhsang2005@example.com'',
        bio = Some [(str ''vi'',
                 str ''L'' @ [0x1EAD] @ str ''p tr'' @ [0xEC] @ str ''nh vi'' @ [0xEA]
                 @ str ''n | Ng'' @ [0x1B0, 0x1EDD] @ str ''i y'' @ [0xEA] @ str ''u c'' @ [0xF4]
                 @ str ''ng ngh'' @ [0x1EC7] @ str '' | Blogger'')],
        social = \<lparr> github = str ''HuynhSang2005'', twitter = str ''@huynhsang'',
                   youtube = str ''huynhsang'', linkedin = str ''huynhsang'' \<rparr> \<rparr>]"

text \<open>\<^verbatim>\<open>content.trim().split(/\s+/).length\<close>.\<close>

definition numberOfWords :: "jsstring \<Rightarrow> nat" where
  "numberOfWords body_text = length (split_ws (trim body_text))"

text \<open>
  \<^verbatim>\<open>const [, locale] = normalizedDir.split("/")\<close>: the second piece of the directory, or
  \<^verbatim>\<open>undefined\<close> when there is none.
\<close>

definition blog_locale :: "jsstring \<Rightarrow> jsstring option" where
  "blog_locale dir =
     (case split_on slash (normalize_separators dir) of
        _ # l # _ \<Rightarrow> Some l
      | _ \<Rightarrow> None)"

text \<open>
  \<^verbatim>\<open>bio?.[locale]\<close>: a property read on the bio object, an object literal. Its own entries
  come first; a key it does not have is looked up in \<^verbatim>\<open>Object.prototype\<close>, whose members
  (in Node.js) are listed here. An \<^verbatim>\<open>undefined\<close> key reads the property named
  \<^verbatim>\<open>"undefined"\<close>.
\<close>

definition object_prototype_keys :: "jsstring list" where
  "object_prototype_keys =
     [str ''constructor'', str ''__defineGetter__'', str ''__defineSetter__'',
      str ''hasOwnProperty'', str ''__lookupGetter__'', str ''__lookupSetter__'',
      str ''isPrototypeOf'', str ''propertyIsEnumerable'', str ''toString'', str ''valueOf'',
      str ''__proto__'', str ''toLocaleString'']"

definition bio_entry :: "(jsstring \<times> jsstring) list option \<Rightarrow> jsstring option \<Rightarrow> bio_value" where
  "bio_entry b key =
     (case b of
        None \<Rightarrow> NoBio
      | Some entries \<Rightarrow>
          (let k = (case key of None \<Rightarrow> str ''undefined'' | Some k' \<Rightarrow> k')
           in case map_of entries k of
                Some t \<Rightarrow> BioText t
              | None \<Rightarrow> if k \<in> set object_prototype_keys then Inherited k else NoBio))"

text \<open>
  \<^verbatim>\<open>a || b\<close>: \<^verbatim>\<open>undefined\<close> and the empty string are falsy, a function or an object is
  truthy.
\<close>

definition js_or :: "bio_value \<Rightarrow> bio_value \<Rightarrow> bio_value" where
  "js_or a b =
     (case a of
        NoBio \<Rightarrow> b
      | BioText t \<Rightarrow> if t = [] then b else a
      | Inherited k \<Rightarrow> a)"

definition resolve_author ::
  "author_entry list \<Rightarrow> jsstring option \<Rightarrow> jsstring option \<Rightarrow> compiled_author" where
  "resolve_author authors locale aid =
     (case find (\<lambda>a. Some (ident a) = aid) authors of
        Some authorData \<Rightarrow>
          \<lparr> au_id = Some (ident authorData),
            au_name = Some (name authorData),
            au_image = Some (image_path authorData),
            au_site = Some (site authorData),
            au_email = Some (email authorData),
            au_bio = js_or (bio_entry (bio authorData) locale)
                           (bio_entry (bio authorData) (Some (str ''vi''))),
            au_social = Some (social authorData) \<rparr>
      | None \<Rightarrow>
          \<lparr> au_id = aid, au_name = None, au_image = None, au_site = None,
            au_email = None, au_bio = NoBio, au_social = None \<rparr>)"

definition blogs_transform ::
  "blog_document compileMDX \<Rightarrow> blog_document \<Rightarrow> error + blog_document blog_compiled" where
  "blogs_transform compile d =
     (case compile d of
        Inl e \<Rightarrow> Inl e
      | Inr code \<Rightarrow>
          (let normalizedPath = normalize_separators (path (meta d));
               pathParts = split_on slash normalizedPath;
               slugAsParams' = join [slash] pathParts;
               wordsPerMinute = 200;
               readTime = ceil_div (numberOfWords (content d)) wordsPerMinute;
               locale = blog_locale (directory (meta d))
           in Inr \<lparr> source = d,
                    mdx = code,
                    slug = slash # normalizedPath,
                    slugAsParams = slugAsParams',
                    compat_id = filePath (meta d),
                    compat_raw =
                      \<lparr> sourceFilePath = filePath (meta d),
                        sourceFileName = fileName (meta d),
                        sourceFileDir = directory (meta d),
                        flattenedPath = normalizedPath,
                        contentType = str ''mdx'' \<rparr>,
                    body = \<lparr> body_raw = content d, body_code = code \<rparr>,
                    readTimeInMinutes = readTime,
                    author = resolve_author blogConfig_authors locale (author_id d) \<rparr>))"

section \<open>The syntax tree and the passes over code blocks\<close>

text \<open>
  Values of the properties the passes read and write: a string, a boolean, or
  \<^verbatim>\<open>undefined\<close> (also for a property that is not there: both read as \<^verbatim>\<open>undefined\<close>).
\<close>

datatype jsval = Undefined | Str jsstring | Bool bool

definition truthy :: "jsval \<Rightarrow> bool" where
  "truthy v = (case v of Undefined \<Rightarrow> False | Str s \<Rightarrow> s \<noteq> [] | Bool b \<Rightarrow> b)"

text \<open>
  \<open>properties\<close> is \<^verbatim>\<open>node.properties\<close> with the entries the passes name
  (\<^verbatim>\<open>__rawString__\<close>, \<^verbatim>\<open>__src__\<close>, \<^verbatim>\<open>__style__\<close>, \<^verbatim>\<open>__withMeta__\<close>, \<^verbatim>\<open>__npmCommand__\<close>, ...)
  and the class names beside them; \<open>annotations\<close> are the fields of the same names that the
  capture pass sets on the node object itself.
\<close>

record properties =
  rawString :: jsval
  src :: jsval
  style :: jsval
  withMeta :: jsval
  npmCommand :: jsval
  yarnCommand :: jsval
  pnpmCommand :: jsval
  bunCommand :: jsval
  className :: "jsstring list"

record annotations =
  node_rawString :: jsval
  node_src :: jsval
  node_style :: jsval

text \<open>
  A node of the tree: an element (type \<^verbatim>\<open>"element"\<close>, with tag name, properties, the
  fields set on the object, and children), a literal (a text or a comment: a type and a
  \<^verbatim>\<open>value\<close>), or any other node with children and no tag name (the root, an MDX node).
\<close>

datatype node =
    Element jsstring properties annotations "node list"
  | Literal jsstring jsstring
  | Parent jsstring "node list"

fun children :: "node \<Rightarrow> node list" where
  "children (Element tag p m ch) = ch"
| "children (Literal kind v) = []"
| "children (Parent kind ch) = ch"

fun tagName :: "node \<Rightarrow> jsstring option" where
  "tagName (Element tag p m ch) = Some tag"
| "tagName (Literal kind v) = None"
| "tagName (Parent kind ch) = None"

fun node_properties :: "node \<Rightarrow> properties option" where
  "node_properties (Element tag p m ch) = Some p"
| "node_properties (Literal kind v) = None"
| "node_properties (Parent kind ch) = None"

fun node_annotations :: "node \<Rightarrow> annotations option" where
  "node_annotations (Element tag p m ch) = Some m"
| "node_annotations (Literal kind v) = None"
| "node_annotations (Parent kind ch) = None"

subsection \<open>Raw-source capture\<close>





subsection \<open>Metadata hoist\<close>

text \<open>
  The visitor of the second inline plugin, at an element with a tag name whose last child
  (\<^verbatim>\<open>children.at(-1)\<close>) is a \<^verbatim>\<open>pre\<close>: it writes into the properties of that child.
\<close>

definition hoisted :: "node \<Rightarrow> annotations \<Rightarrow> properties \<Rightarrow> properties" where
  "hoisted first m pp =
     (let p1 = pp\<lparr> withMeta := Bool (tagName first = Some (str ''div'')) \<rparr>;
          p2 = p1\<lparr> rawString := node_rawString m \<rparr>;
          p3 = (if truthy (node_src m) then p2\<lparr> src := node_src m \<rparr> else p2)
      in if truthy (node_style m) then p3\<lparr> style := node_style m \<rparr> else p3)"

fun hoist_visitor :: "node \<Rightarrow> node" where
  "hoist_visitor (Element tag p m ch) =
     (if tag \<noteq> [] \<and> ch \<noteq> [] then
        (case last ch of
           Element ptag pp pm pch \<Rightarrow>
             (if ptag \<noteq> str ''pre'' then Element tag p m ch
              else Element tag p m (butlast ch @ [Element ptag (hoisted (hd ch) m pp) pm pch]))
         | Literal kind v \<Rightarrow> Element tag p m ch
         | Parent kind pch \<Rightarrow> Element tag p m ch)
      else Element tag p m ch)"
| "hoist_visitor (Literal kind v) = Literal kind v"
| "hoist_visitor (Parent kind ch) = Parent kind ch"

function hoist_pass :: "node \<Rightarrow> node" where
  "hoist_pass n =
     (case hoist_visitor n of
        Element tag p m ch \<Rightarrow> Element tag p m (map hoist_pass ch)
      | Literal kind v \<Rightarrow> Literal kind v
      | Parent kind ch \<Rightarrow> Parent kind (map hoist_pass ch))"
  by pat_completeness auto
termination
proof (relation "measure size")
  have last_size: "Suc (Suc (size_list size (butlast ch) + size_list size pch)) = size_list size ch"
    if "ch \<noteq> []" and "last ch = Element t pp pm pch" for ch t pp pm pch
  proof -
    have "size_list size ch = size_list size (butlast ch @ [last ch])"
      using that(1) by simp
    then show ?thesis by (simp add: that(2))
  qed
  have same: "size (hoist_visitor n) = size n" for n
    by (cases n) (auto simp: last_size split: node.splits)
  fix n tag p m ch x
  assume "hoist_visitor n = Element tag p m ch" and "x \<in> set ch"
  then have "size x < size (hoist_visitor n)"
    by (auto simp: less_Suc_eq_le size_list_estimation')
  then show "(x, n) \<in> measure size" by (simp add: same)
next
  fix n kind ch x
  assume "hoist_visitor n = Parent kind ch" and "x \<in> set ch"
  then show "(x, n) \<in> measure size"
    by (cases n) (auto simp: less_Suc_eq_le size_list_estimation' split: if_splits node.splits)
qed simp

declare hoist_pass.simps [simp del]

subsection \<open>Package-manager variants\<close>

text \<open>
  The three \<^verbatim>\<open>if\<close> statements of \<^verbatim>\<open>rehypeNpmCommand\<close>, each on the properties the one
  before left.
\<close>

definition npm_install_variants :: "jsstring \<Rightarrow> properties \<Rightarrow> properties" where
  "npm_install_variants raw p =
     (if startsWith raw (str ''npm i'') then
        p\<lparr> npmCommand := Str raw,
           yarnCommand := Str (replace_first (str ''npm i'') (str ''yarn add'') raw),
           pnpmCommand := Str (replace_first (str ''npm i'') (str ''pnpm add'') raw),
           bunCommand := Str (replace_first (str ''npm i'') (str ''bun add'') raw) \<rparr>
      else p)"

definition npx_create_variants :: "jsstring \<Rightarrow> properties \<Rightarrow> properties" where
  "npx_create_variants raw p =
     (if startsWith raw (str ''npx create-'') then
        p\<lparr> npmCommand := Str raw,
           yarnCommand := Str (replace_first (str ''npx create-'') (str ''yarn create '') raw),
           pnpmCommand := Str (replace_first (str ''npx create-'') (str ''pnpm create '') raw),
           bunCommand := Str (replace_first (str ''npx'') (str ''bunx --bun'') raw) \<rparr>
      else p)"

definition npx_variants :: "jsstring \<Rightarrow> properties \<Rightarrow> properties" where
  "npx_variants raw p =
     (if startsWith raw (str ''npx'') \<and> \<not> startsWith raw (str ''npx create-'') then
        p\<lparr> npmCommand := Str raw,
           yarnCommand := Str raw,
           pnpmCommand := Str (replace_first (str ''npx'') (str ''pnpm dlx'') raw),
           bunCommand := Str (replace_first (str ''npx'') (str ''bunx --bun'') raw) \<rparr>
      else p)"

text \<open>
  The visitor. \<^verbatim>\<open>__rawString__?.startsWith(...)\<close> is \<^verbatim>\<open>undefined\<close> on a raw string that is
  \<^verbatim>\<open>undefined\<close>, and throws on a boolean, which has no \<^verbatim>\<open>startsWith\<close>.
\<close>

fun rehypeNpmCommand_visitor :: "node \<Rightarrow> error + node" where
  "rehypeNpmCommand_visitor (Element tag p m ch) =
     (if tag \<noteq> str ''pre'' then Inr (Element tag p m ch)
      else (case rawString p of
              Undefined \<Rightarrow> Inr (Element tag p m ch)
            | Bool b \<Rightarrow> Inl TypeError
            | Str raw \<Rightarrow>
                Inr (Element tag
                  (npx_variants raw (npx_create_variants raw (npm_install_variants raw p)))
                  m ch)))"
| "rehypeNpmCommand_visitor (Literal kind v) = Inr (Literal kind v)"
| "rehypeNpmCommand_visitor (Parent kind ch) = Inr (Parent kind ch)"

function rehypeNpmCommand :: "node \<Rightarrow> error + node"
  and rehypeNpmCommand_children :: "node list \<Rightarrow> error + node list" where
  "rehypeNpmCommand n =
     (case rehypeNpmCommand_visitor n of
        Inl e \<Rightarrow> Inl e
      | Inr (Element tag p m ch) \<Rightarrow>
          (case rehypeNpmCommand_children ch of
             Inl e \<Rightarrow> Inl e
           | Inr ch' \<Rightarrow> Inr (Element tag p m ch'))
      | Inr (Literal kind v) \<Rightarrow> Inr (Literal kind v)
      | Inr (Parent kind ch) \<Rightarrow>
          (case rehypeNpmCommand_children ch of
             Inl e \<Rightarrow> Inl e
           | Inr ch' \<Rightarrow> Inr (Parent kind ch')))"
| "rehypeNpmCommand_children [] = Inr []"
| "rehypeNpmCommand_children (c # cs) =
     (case rehypeNpmCommand c of
        Inl e \<Rightarrow> Inl e
      | Inr c' \<Rightarrow>
          (case rehypeNpmCommand_children cs of
             Inl e \<Rightarrow> Inl e
           | Inr cs' \<Rightarrow> Inr (c' # cs')))"
  by pat_completeness auto
termination
proof (relation "measure (\<lambda>x. case x of Inl n \<Rightarrow> size n | Inr ns \<Rightarrow> size_list size ns)")
  fix n b tag p m ch
  assume "rehypeNpmCommand_visitor n = Inr b" and "b = Element tag p m ch"
  then show "(Inr ch, Inl n)
      \<in> measure (\<lambda>x. case x of Inl n \<Rightarrow> size n | Inr ns \<Rightarrow> size_list size ns)"
    by (cases n) (auto split: if_splits jsval.splits)
next
  fix n b kind ch
  assume "rehypeNpmCommand_visitor n = Inr b" and "b = Parent kind ch"
  then show "(Inr ch, Inl n)
      \<in> measure (\<lambda>x. case x of Inl n \<Rightarrow> size n | Inr ns \<Rightarrow> size_list size ns)"
    by (cases n) (auto split: if_splits jsval.splits)
qed simp_all

declare rehypeNpmCommand.simps [simp del]

section \<open>Reference definitions\<close>

text \<open>
  The node at a position of a tree: a position is the list of the child indices on the way
  down from the root.
\<close>

fun subtree_at :: "node \<Rightarrow> nat list \<Rightarrow> node option" where
  "subtree_at n [] = Some n"
| "subtree_at n (i # pos) =
     (if i < length (children n) then subtree_at (children n ! i) pos else None)"

text \<open>Two nodes the visitor treats alike: they differ in their own properties at most.\<close>

definition alike :: "node \<Rightarrow> node \<Rightarrow> bool" where
  "alike a b \<longleftrightarrow> tagName a = tagName b \<and> node_annotations a = node_annotations b \<and>
     children a = children b"


fun no_boolean_raw :: "node \<Rightarrow> bool" where
  "no_boolean_raw (Element tag p m ch) =
     ((if tag = str ''pre'' then (case rawString p of Bool b \<Rightarrow> False | _ \<Rightarrow> True) else True)
      \<and> list_all no_boolean_raw ch)"
| "no_boolean_raw (Literal kind v) = True"
| "no_boolean_raw (Parent kind ch) = list_all no_boolean_raw ch"

text \<open>
  The properties of a \<^verbatim>\<open>pre\<close> after the variant pass, as a table of prefixes: what stands
  after the prefix of the raw string is kept, and the prefix is exchanged. For
  \<^verbatim>\<open>npx create-\<close> the bun command exchanges the leading \<^verbatim>\<open>npx\<close> only.
\<close>

definition variants_by_prefix :: "properties \<Rightarrow> properties" where
  "variants_by_prefix p =
     (case rawString p of
        Str raw \<Rightarrow>
          if startsWith raw (str ''npm i'') then
            p\<lparr> npmCommand := Str raw,
               yarnCommand := Str (str ''yarn add'' @ drop 5 raw),
               pnpmCommand := Str (str ''pnpm add'' @ drop 5 raw),
               bunCommand := Str (str ''bun add'' @ drop 5 raw) \<rparr>
          else if startsWith raw (str ''npx create-'') then
            p\<lparr> npmCommand := Str raw,
               yarnCommand := Str (str ''yarn create '' @ drop 11 raw),
               pnpmCommand := Str (str ''pnpm create '' @ drop 11 raw),
               bunCommand := Str (str ''bunx --bun'' @ drop 3 raw) \<rparr>
          else if startsWith raw (str ''npx'') then
            p\<lparr> npmCommand := Str raw,
               yarnCommand := Str raw,
               pnpmCommand := Str (str ''pnpm dlx'' @ drop 3 raw),
               bunCommand := Str (str ''bunx --bun'' @ drop 3 raw) \<rparr>
          else p
      | Undefined \<Rightarrow> p
      | Bool b \<Rightarrow> p)"

text \<open>
  The number of words of a text, counted without splitting it: a word starts at every
  character that is not white space and stands at the start or after white space.
\<close>

fun words_from :: "bool \<Rightarrow> jsstring \<Rightarrow> nat" where
  "words_from after_space [] = 0"
| "words_from after_space (c # cs) =
     (if after_space \<and> \<not> isSpace c then 1 else 0) + words_from (isSpace c) cs"

definition word_count :: "jsstring \<Rightarrow> nat" where
  "word_count s = words_from True s"

text \<open>
  The bio of an author for a locale, as the specification words it: the entry of the
  requested locale, and the entry of the default locale \<^verbatim>\<open>vi\<close> when the requested locale has
  none. The locale segment of a document is the first segment of its path, the one that the
  docs transform falls back to (\<^verbatim>\<open>normalizedPath.split("/")[0]\<close>).
\<close>

definition localized_bio_spec :: "(jsstring \<times> jsstring) list option \<Rightarrow> jsstring \<Rightarrow> jsstring option" where
  "localized_bio_spec b locale =
     (case b of
        None \<Rightarrow> None
      | Some entries \<Rightarrow>
          (case map_of entries locale of
             Some t \<Rightarrow> Some t
           | None \<Rightarrow> map_of entries (str ''vi'')))"

definition locale_segment :: "blog_document \<Rightarrow> jsstring" where
  "locale_segment d = hd (split_on slash (normalize_separators (path (meta d))))"


section \<open>Example inputs\<close>

text \<open>
  A compilation that succeeds, and documents with the \<^verbatim>\<open>_meta\<close> the transforms read:
  the file \<^verbatim>\<open>content/blog/vi/my-post.mdx\<close> of the collection with directory
  \<^verbatim>\<open>../content/blog\<close> has the path \<^verbatim>\<open>vi/my-post\<close> and the directory \<^verbatim>\<open>vi\<close>.
\<close>

definition compile_ok :: "'d compileMDX" where "compile_ok d = Inr (str ''compiled'')"

definition docs_at :: "jsstring \<Rightarrow> jsstring \<Rightarrow> jsstring \<Rightarrow> docs_document" where
  "docs_at dir base body_text =
     \<lparr> title = str ''Guide'', links = None, content = body_text,
       meta = \<lparr> filePath = dir @ base @ str ''.mdx'', fileName = base @ str ''.mdx'',
                directory = dir, path = dir @ base, extension = str ''mdx'' \<rparr>,
       description = None, toc = True \<rparr>"

definition root_index_doc :: docs_document where
  "root_index_doc = docs_at [] (str ''index'') (str ''Welcome'')"

definition guide_doc :: docs_document where
  "guide_doc = docs_at (str ''vi/'') (str ''guide'') (str ''Guide text'')"

definition guide_index_doc :: docs_document where
  "guide_index_doc = docs_at (str ''vi/guide/'') (str ''index'') (str ''Guide text'')"

definition locale_index_doc :: docs_document where
  "locale_index_doc = docs_at (str ''vi/'') (str ''index'') (str ''Guide text'')"

definition blog_at :: "jsstring \<Rightarrow> jsstring \<Rightarrow> jsstring option \<Rightarrow> jsstring \<Rightarrow> blog_document" where
  "blog_at dir base aid body_text =
     \<lparr> title = str ''My Post'', links = None, content = body_text,
       meta = \<lparr> filePath = dir @ [slash] @ base @ str ''.mdx'', fileName = base @ str ''.mdx'',
                directory = dir, path = dir @ [slash] @ base, extension = str ''mdx'' \<rparr>,
       excerpt = str ''...'', date = str ''2024-01-01'', author_id = aid, og_image = None,
       tags = [str ''x''] \<rparr>"

definition my_post :: blog_document where
  "my_post = blog_at (str ''vi'') (str ''my-post'') (Some (str ''huynhsang''))
               (concat (replicate 400 (str ''word '')))"



definition constructor_post :: blog_document where
  "constructor_post =
     blog_at (str ''vi/constructor'') (str ''post'') (Some (str ''huynhsang'')) (str ''Hello'')"

text \<open>
  Nodes as the parser and the highlighter make them. A fenced code block is a \<^verbatim>\<open>pre\<close> that
  holds one \<^verbatim>\<open>code\<close> element with the text of the fence; \<open>captured_fence\<close> is that node
  after the capture pass. \<open>highlighted_fence\<close> is a wrapper as the hoist pass expects it: the
  \<^verbatim>\<open>pre\<close> object itself turned into a \<^verbatim>\<open>figure\<close>, the field \<^verbatim>\<open>__rawString__\<close> still on it, with
  a caption and a new \<^verbatim>\<open>pre\<close> of highlighted lines as its children. A page is a root node
  over its blocks.
\<close>

definition no_properties :: properties where
  "no_properties =
     \<lparr> rawString = Undefined, src = Undefined, style = Undefined, withMeta = Undefined,
       npmCommand = Undefined, yarnCommand = Undefined, pnpmCommand = Undefined,
       bunCommand = Undefined, className = [] \<rparr>"

definition no_annotations :: annotations where
  "no_annotations = \<lparr> node_rawString = Undefined, node_src = Undefined, node_style = Undefined \<rparr>"

definition fence :: "jsstring \<Rightarrow> node" where
  "fence code_text =
     Element (str ''pre'') no_properties no_annotations
       [Element (str ''code'') (no_properties\<lparr> className := [str ''language-bash''] \<rparr>)
          no_annotations [Literal (str ''text'') code_text]]"

definition captured_fence :: "jsstring \<Rightarrow> node" where
  "captured_fence code_text =
     Element (str ''pre'') no_properties (no_annotations\<lparr> node_rawString := Str code_text \<rparr>)
       [Element (str ''code'') (no_properties\<lparr> className := [str ''language-bash''] \<rparr>)
          no_annotations [Literal (str ''text'') code_text]]"

definition highlighted_fence :: "jsstring \<Rightarrow> jsstring \<Rightarrow> node" where
  "highlighted_fence caption code_text =
     Element (str ''figure'') no_properties (no_annotations\<lparr> node_rawString := Str code_text \<rparr>)
       [Element (str ''figcaption'') no_properties no_annotations [Literal (str ''text'') caption],
        Element (str ''pre'') no_properties no_annotations
          [Element (str ''code'') no_properties no_annotations
             [Element (str ''span'') (no_properties\<lparr> className := [str ''line''] \<rparr>)
                no_annotations [Literal (str ''text'') code_text]]]]"

definition pre_with_raw :: "jsval \<Rightarrow> node" where
  "pre_with_raw raw = Element (str ''pre'') (no_properties\<lparr> rawString := raw \<rparr>) no_annotations []"

definition page :: "node list \<Rightarrow> node" where
  "page blocks = Parent (str ''root'') blocks"

definition text_block :: "jsstring \<Rightarrow> node" where
  "text_block t = Element (str ''p'') no_properties no_annotations [Literal (str ''text'') t]"

definition commands_page :: node where
  "commands_page =
     page [text_block (str ''Install:''),
           pre_with_raw (Str (str ''npm i react'')),
           pre_with_raw (Str (str ''npx create-next-app'')),
           pre_with_raw (Str (str ''npx degit a b'')),
           pre_with_raw (Str (str ''ls -la'')),
           pre_with_raw (Str (str ''npm install pkg''))]"

section \<open>Strings: splitting and joining\<close>

lemmas string_eval = normalize_separators_def slash_def backslash_def str_def
  remove_whole_def remove_at_end_def endsWith_def startsWith_def

lemma split_on_nonempty: "split_on sep s \<noteq> []"
  by (induction s) (auto split: list.splits)

lemma join_split_on: "join [sep] (split_on sep s) = s"
proof (induction s)
  case Nil
  show ?case by simp
next
  case (Cons c cs)
  obtain p ps where sp: "split_on sep cs = p # ps"
    using split_on_nonempty [of sep cs] by (cases "split_on sep cs") auto
  show ?case
  proof (cases "c = sep")
    case True
    with Cons sp show ?thesis by simp
  next
    case False
    have "join [sep] ((c # p) # ps) = c # join [sep] (p # ps)"
      by (cases ps) auto
    with False Cons sp show ?thesis by simp
  qed
qed

lemma split_on_append_sep: "split_on sep (q @ sep # t) = split_on sep q @ split_on sep t"
proof (induction q)
  case Nil
  show ?case by simp
next
  case (Cons c q)
  obtain p ps where sp: "split_on sep q = p # ps"
    using split_on_nonempty [of sep q] by (cases "split_on sep q") auto
  with Cons show ?case by auto
qed

lemma split_index: "split_on slash (str ''index'') = [str ''index'']"
  by (simp add: string_eval)

lemma endsWith_append: "endsWith s p \<longleftrightarrow> (\<exists>q. s = q @ p)"
proof
  assume "endsWith s p"
  then have "s = take (length s - length p) s @ p"
    by (metis append_take_drop_id endsWith_def)
  then show "\<exists>q. s = q @ p" ..
next
  assume "\<exists>q. s = q @ p"
  then show "endsWith s p" by (auto simp: endsWith_def)
qed

lemma remove_at_end_append: "remove_at_end p (q @ p) = q"
  by (simp add: remove_at_end_def endsWith_def)

section \<open>Slugs\<close>

lemma docs_slug_unfold:
  assumes "docs_transform compile d = Inr r"
  shows "slug r = slash # slugAsParams r"
    and "slugAsParams r =
      (let n = normalize_separators (path (meta d))
       in if docs_cleanPath n \<noteq> [] then docs_cleanPath n else hd (split_on slash n))"
  using assms by (auto simp: docs_transform_def Let_def split: sum.splits)

lemma docs_slugAsParams_cases:
  fixes n :: jsstring
  defines "sp \<equiv> (if docs_cleanPath n \<noteq> [] then docs_cleanPath n else hd (split_on slash n))"
  shows "endsWith n (str ''/index'') \<Longrightarrow> sp = take (length n - 6) n"
    and "\<not> endsWith n (str ''/index'') \<Longrightarrow> sp = n"
proof -
  assume e: "endsWith n (str ''/index'')"
  then obtain q where n: "n = q @ slash # str ''index''"
    by (auto simp: endsWith_append str_def slash_def)
  have c: "docs_cleanPath n = remove_whole (str ''index'') q"
    using remove_at_end_append [of "str ''/index''" q] n
    by (simp add: docs_cleanPath_def str_def slash_def)
  have t: "take (length n - 6) n = q" using n by (simp add: str_def)
  have h: "hd (split_on slash n) = hd (split_on slash q)"
    using n split_on_nonempty [of slash q] by (simp add: split_on_append_sep)
  show "sp = take (length n - 6) n"
  proof (cases "q = str ''index''")
    case True
    then show ?thesis using c t h by (simp add: sp_def remove_whole_def split_index)
  next
    case False
    then show ?thesis using c t h by (cases q) (auto simp: sp_def remove_whole_def)
  qed
next
  assume e: "\<not> endsWith n (str ''/index'')"
  then have c: "docs_cleanPath n = remove_whole (str ''index'') n"
    by (simp add: docs_cleanPath_def remove_at_end_def)
  show "sp = n"
  proof (cases "n = str ''index''")
    case True
    then show ?thesis using c by (simp add: sp_def remove_whole_def split_index)
  next
    case False
    then show ?thesis using c by (cases n) (auto simp: sp_def remove_whole_def)
  qed
qed


lemmas doc_eval = docs_at_def blog_at_def compile_ok_def root_index_doc_def guide_doc_def
  guide_index_doc_def locale_index_doc_def

text \<open>
  Claim C9. In every compiled document of the docs and of the blog collection, \<open>slug\<close> is
  the character \<^verbatim>\<open>/\<close> followed by \<open>slugAsParams\<close>: it begins with \<^verbatim>\<open>/\<close>, and \<open>slugAsParams\<close>
  is the same path without that leading \<^verbatim>\<open>/\<close>.
\<close>

theorem slug_prefixes_slugAsParams:
  "(docs_transform compile d = Inr r \<longrightarrow> slug r = slash # slugAsParams r) \<and>
   (blogs_transform compile' b = Inr r' \<longrightarrow> slug r' = slash # slugAsParams r')"
  by (auto simp: docs_transform_def blogs_transform_def Let_def join_split_on split: sum.splits)

lemma docs_compile_ok: "\<exists>r. docs_transform compile_ok d = Inr r"
  by (simp add: docs_transform_def compile_ok_def Let_def)

lemma blogs_compile_ok: "\<exists>r. blogs_transform compile_ok d = Inr r"
  by (simp add: blogs_transform_def compile_ok_def Let_def)

text \<open>The relation at the compiled records of \<^verbatim>\<open>vi/guide/index\<close> and of a blog post.\<close>

theorem slug_prefixes_slugAsParams_witness:
  "(\<exists>r. docs_transform compile_ok guide_index_doc = Inr r \<and> slug r = slash # slugAsParams r) \<and>
   (\<exists>r'. blogs_transform compile_ok (blog_at (str ''vi'') (str ''my-post'') None []) = Inr r'
      \<and> slug r' = slash # slugAsParams r')"
proof -
  obtain r where r: "docs_transform compile_ok guide_index_doc = Inr r"
    using docs_compile_ok by blast
  obtain r' where r': "blogs_transform compile_ok (blog_at (str ''vi'') (str ''my-post'') None []) = Inr r'"
    using blogs_compile_ok by blast
  from r r' slug_prefixes_slugAsParams [of compile_ok guide_index_doc r compile_ok
      "blog_at (str ''vi'') (str ''my-post'') None []" r']
  show ?thesis by simp
qed

text \<open>
  Claim C2. The docs transform drops a trailing \<^verbatim>\<open>index\<close> segment of the path. At the
  document whose path is the bare \<^verbatim>\<open>index\<close> (the file \<^verbatim>\<open>index.mdx\<close> at the root of the
  collection) it does not: \<^verbatim>\<open>replace(/^index$/, "")\<close> empties the path, and the fallback
  \<^verbatim>\<open>normalizedPath.split("/")[0]\<close> puts \<^verbatim>\<open>index\<close> back, so the slug is \<^verbatim>\<open>/index\<close>.
\<close>

theorem root_index_keeps_index:
  "map_sum id slug (docs_transform compile_ok root_index_doc) = Inr (str ''/index'') \<and>
   map_sum id slugAsParams (docs_transform compile_ok root_index_doc) = Inr (str ''index'')"
  by (simp add: docs_transform_def doc_eval Let_def docs_cleanPath_def string_eval)

text \<open>
  What the docs transform computes for every path: the normalized path, without a trailing
  \<^verbatim>\<open>/index\<close> when it ends with one.
\<close>

lemma docs_slug_characterisation:
  assumes "docs_transform compile d = Inr r"
  shows "slug r =
    (let n = normalize_separators (path (meta d))
     in slash # (if endsWith n (str ''/index'') then take (length n - 6) n else n))"
  using docs_slug_unfold [OF assms] docs_slugAsParams_cases [of "normalize_separators (path (meta d))"]
  by (simp add: Let_def)




text \<open>
  Index collapsing, for every path: the compiled docs record stores the path with every
  backslash turned into \<^verbatim>\<open>/\<close>, and its slug is \<^verbatim>\<open>/\<close> followed by that path, without the
  \<^verbatim>\<open>/index\<close> at its end when there is one.
\<close>

theorem index_collapsing:
  assumes "docs_transform compile d = Inr r"
  shows "flattenedPath (compat_raw r) = normalize_separators (path (meta d)) \<and>
         backslash \<notin> set (flattenedPath (compat_raw r)) \<and>
         slug r = slash # (if endsWith (flattenedPath (compat_raw r)) (str ''/index'')
                          then take (length (flattenedPath (compat_raw r)) - 6) (flattenedPath (compat_raw r))
                          else flattenedPath (compat_raw r))"
proof -
  have f: "flattenedPath (compat_raw r) = normalize_separators (path (meta d))"
    using assms by (auto simp: docs_transform_def Let_def split: sum.splits)
  have b: "backslash \<notin> set (normalize_separators s)" for s
    by (auto simp: normalize_separators_def slash_def backslash_def)
  show ?thesis
    using docs_slug_characterisation [OF assms] b by (simp add: f Let_def)
qed

text \<open>\<^verbatim>\<open>vi/guide/index\<close> compiles to \<^verbatim>\<open>/vi/guide\<close>, and \<^verbatim>\<open>vi/index\<close> to \<^verbatim>\<open>/vi\<close>.\<close>

theorem index_collapsing_witness:
  "(\<exists>r. docs_transform compile_ok guide_index_doc = Inr r \<and> slug r = str ''/vi/guide'') \<and>
   (\<exists>r. docs_transform compile_ok locale_index_doc = Inr r \<and> slug r = str ''/vi'')"
proof -
  obtain r1 where r1: "docs_transform compile_ok guide_index_doc = Inr r1"
    using docs_compile_ok by blast
  obtain r2 where r2: "docs_transform compile_ok locale_index_doc = Inr r2"
    using docs_compile_ok by blast
  have p: "path (meta guide_index_doc) = str ''vi/guide/index''"
    "path (meta locale_index_doc) = str ''vi/index''"
    by (simp_all add: doc_eval str_def)
  from index_collapsing [OF r1] index_collapsing [OF r2] r1 r2 show ?thesis
    by (simp add: p string_eval)
qed

section \<open>Authors\<close>

text \<open>
  Claim C8. When the \<^verbatim>\<open>author_id\<close> of a blog document is the id of no entry of the authors
  table, the compiled \<open>author\<close> is \<^verbatim>\<open>{ id: author_id }\<close>: the given id and no other field.
\<close>

theorem author_fallback_stub:
  assumes "blogs_transform compile d = Inr r"
    and "\<forall>a \<in> set blogConfig_authors. Some (ident a) \<noteq> author_id d"
  shows "author r = \<lparr> au_id = author_id d, au_name = None, au_image = None, au_site = None,
                      au_email = None, au_bio = NoBio, au_social = None \<rparr>"
proof -
  have "find (\<lambda>a. Some (ident a) = author_id d) blogConfig_authors = None"
    using assms(2) by (simp add: find_None_iff)
  with assms(1) show ?thesis
    by (auto simp: blogs_transform_def resolve_author_def Let_def split: sum.splits)
qed

text \<open>A post whose author is \<^verbatim>\<open>nobody\<close>.\<close>

theorem author_fallback_stub_witness:
  "\<exists>r. blogs_transform compile_ok (blog_at (str ''vi'') (str ''my-post'') (Some (str ''nobody'')) []) = Inr r \<and>
     author_id (blog_at (str ''vi'') (str ''my-post'') (Some (str ''nobody'')) []) = Some (str ''nobody'') \<and>
     author r = \<lparr> au_id = Some (str ''nobody''), au_name = None, au_image = None, au_site = None,
                  au_email = None, au_bio = NoBio, au_social = None \<rparr>"
proof -
  let ?d = "blog_at (str ''vi'') (str ''my-post'') (Some (str ''nobody'')) []"
  obtain r where r: "blogs_transform compile_ok ?d = Inr r"
    using blogs_compile_ok by blast
  have n: "\<forall>a \<in> set blogConfig_authors. Some (ident a) \<noteq> author_id ?d"
    by (simp add: blogConfig_authors_def blog_at_def str_def)
  from author_fallback_stub [OF r n] r show ?thesis
    by (simp add: blog_at_def)
qed


lemma find_blogConfig_author:
  assumes "find (\<lambda>a. Some (ident a) = aid) blogConfig_authors = Some a"
  shows "a = hd blogConfig_authors" and "aid = Some (str ''huynhsang'')"
  using assms by (auto simp: blogConfig_authors_def split: if_splits)

lemma static_bio_found:
  assumes "k = str ''vi'' \<or> k \<notin> set object_prototype_keys"
  shows "js_or (bio_entry (bio (hd blogConfig_authors)) (Some k))
               (bio_entry (bio (hd blogConfig_authors)) (Some (str ''vi'')))
         = bio_entry (bio (hd blogConfig_authors)) (Some (str ''vi''))"
    and "bio_entry (bio (hd blogConfig_authors)) (Some (str ''vi''))
         = (case localized_bio_spec (bio (hd blogConfig_authors)) loc of
              Some t \<Rightarrow> BioText t | None \<Rightarrow> NoBio)"
  using assms
  by (auto simp: blogConfig_authors_def js_or_def bio_entry_def localized_bio_spec_def str_def Let_def
      split: option.splits)

lemma undefined_not_inherited: "str ''undefined'' \<notin> set object_prototype_keys"
  by (simp add: object_prototype_keys_def str_def)

text \<open>
  What the blog transform makes of an author of the table, as long as the second segment of
  the directory (the locale the code looks up) names no member of \<^verbatim>\<open>Object.prototype\<close>: the
  entry with the bio for \<^verbatim>\<open>vi\<close>, which is also the bio for the locale segment of the document.
\<close>

lemma author_resolved_unless_inherited:
  assumes "blogs_transform compile d = Inr r"
    and "find (\<lambda>a. Some (ident a) = author_id d) blogConfig_authors = Some a"
    and "\<forall>l. blog_locale (directory (meta d)) = Some l \<longrightarrow> l \<notin> set object_prototype_keys"
  shows "author r =
     \<lparr> au_id = Some (ident a), au_name = Some (name a), au_image = Some (image_path a),
       au_site = Some (site a), au_email = Some (email a),
       au_bio = (case localized_bio_spec (bio a) (locale_segment d) of
                   Some t \<Rightarrow> BioText t | None \<Rightarrow> NoBio),
       au_social = Some (social a) \<rparr>"
proof -
  have a: "a = hd blogConfig_authors"
    using assms(2) by (rule find_blogConfig_author)
  let ?l = "blog_locale (directory (meta d))"
  have k: "(case ?l of None \<Rightarrow> str ''undefined'' | Some k \<Rightarrow> k) = str ''vi'' \<or>
           (case ?l of None \<Rightarrow> str ''undefined'' | Some k \<Rightarrow> k) \<notin> set object_prototype_keys"
    using assms(3) undefined_not_inherited by (cases ?l) auto
  have e: "bio_entry b ?l = bio_entry b (Some (case ?l of None \<Rightarrow> str ''undefined'' | Some k \<Rightarrow> k))" for b
    by (cases ?l; cases b) (simp_all add: bio_entry_def Let_def)
  have "author r = resolve_author blogConfig_authors ?l (author_id d)"
    using assms(1) by (auto simp: blogs_transform_def Let_def split: sum.splits)
  then show ?thesis
    using assms(2) static_bio_found(1) [OF k]
      static_bio_found(2) [OF k, where loc = "locale_segment d"]
    by (simp add: resolve_author_def a e)
qed

text \<open>
  Claim C7. A post by \<^verbatim>\<open>huynhsang\<close> in the directory \<^verbatim>\<open>vi/constructor\<close>: the locale segment
  of the document is \<^verbatim>\<open>vi\<close> and the bio for it is the text of the table, but the code looks
  \<^verbatim>\<open>bio["constructor"]\<close> up, finds the member that the bio object inherits, and makes that
  the bio of the compiled author.
\<close>

theorem inherited_bio_in_constructor_directory:
  "find (\<lambda>a. Some (ident a) = author_id constructor_post) blogConfig_authors
     = Some (hd blogConfig_authors) \<and>
   locale_segment constructor_post = str ''vi'' \<and>
   blog_locale (directory (meta constructor_post)) = Some (str ''constructor'') \<and>
   localized_bio_spec (bio (hd blogConfig_authors)) (locale_segment constructor_post)
     = map_of (the (bio (hd blogConfig_authors))) (str ''vi'') \<and>
   map_of (the (bio (hd blogConfig_authors))) (str ''vi'') \<noteq> None \<and>
   map_sum id (\<lambda>r. au_bio (author r)) (blogs_transform compile_ok constructor_post)
     = Inr (Inherited (str ''constructor''))"
  by (simp add: blogs_transform_def compile_ok_def constructor_post_def blog_at_def Let_def
      resolve_author_def blogConfig_authors_def blog_locale_def locale_segment_def
      localized_bio_spec_def bio_entry_def js_or_def object_prototype_keys_def string_eval)

text \<open>
  The locale that the blog transform looks the bio up with is the second segment of the
  directory of the document: a directory of one segment, such as \<^verbatim>\<open>vi\<close>, gives
  \<^verbatim>\<open>undefined\<close>, and the bio is the one for \<^verbatim>\<open>vi\<close> by the fallback.
\<close>

theorem blog_locale_of_flat_directory:
  assumes "slash \<notin> set dir" and "backslash \<notin> set dir"
  shows "blog_locale dir = None"
proof -
  have "normalize_separators dir = dir"
    using assms(2) by (induction dir) (auto simp: normalize_separators_def)
  moreover have "split_on slash dir = [dir]"
    using assms(1) by (induction dir) auto
  ultimately show ?thesis by (simp add: blog_locale_def)
qed

text \<open>The directory of the post \<^verbatim>\<open>vi/my-post\<close>.\<close>

theorem blog_locale_of_flat_directory_witness:
  "slash \<notin> set (directory (meta my_post)) \<and> backslash \<notin> set (directory (meta my_post)) \<and>
   directory (meta my_post) = str ''vi'' \<and> blog_locale (directory (meta my_post)) = None"
  using blog_locale_of_flat_directory [of "directory (meta my_post)"]
  by (simp add: my_post_def blog_at_def string_eval)

section \<open>Reading time\<close>

lemma split_ws_nonempty: "split_ws s \<noteq> []"
  by (induction s rule: split_ws.induct) (auto split: list.splits)

lemma words_from_flag:
  "words_from True s = words_from False s + (if s \<noteq> [] \<and> \<not> isSpace (hd s) then 1 else 0)"
  by (cases s) auto

lemma words_from_dropWhile: "words_from True (dropWhile isSpace s) = words_from True s"
  by (induction s) auto

lemma words_from_spaces: "\<forall>c \<in> set t. isSpace c \<Longrightarrow> words_from p (s @ t) = words_from p s"
proof (induction s arbitrary: p)
  case Nil
  then show ?case by (induction t arbitrary: p) auto
next
  case (Cons c s)
  then show ?case by simp
qed

lemma length_split_ws:
  "length (split_ws s) =
     words_from True s + (if s = [] \<or> isSpace (hd s) then 1 else 0)
       + (if s \<noteq> [] \<and> isSpace (last s) then 1 else 0)"
proof (induction s rule: split_ws.induct)
  case 1
  show ?case by simp
next
  case (2 c cs)
  show ?case
  proof (cases "isSpace c")
    case True
    let ?t = "dropWhile isSpace cs"
    have ih: "length (split_ws ?t) =
       words_from True ?t + (if ?t = [] \<or> isSpace (hd ?t) then 1 else 0)
         + (if ?t \<noteq> [] \<and> isSpace (last ?t) then 1 else 0)"
      using 2(1) [OF True] .
    have hd: "?t \<noteq> [] \<Longrightarrow> \<not> isSpace (hd ?t)" by (rule hd_dropWhile)
    show ?thesis
    proof (cases "?t = []")
      case e: True
      then have "\<forall>x \<in> set cs. isSpace x" by (simp add: dropWhile_eq_Nil_conv)
      then have l: "isSpace (last (c # cs))" using True by (cases cs) auto
      have "length (split_ws ?t) = 1" and "words_from True ?t = 0"
        unfolding e by simp_all
      with True l words_from_dropWhile [of cs] show ?thesis by simp
    next
      case ne: False
      then have cs: "cs \<noteq> []" by auto
      have "last ?t = last cs" using ne by (metis last_appendR takeWhile_dropWhile_id)
      with True ih ne cs hd words_from_dropWhile [of cs] show ?thesis by simp
    qed
  next
    case False
    have ih: "length (split_ws cs) =
       words_from True cs + (if cs = [] \<or> isSpace (hd cs) then 1 else 0)
         + (if cs \<noteq> [] \<and> isSpace (last cs) then 1 else 0)"
      using 2(2) [OF False] .
    have len: "length (split_ws (c # cs)) = length (split_ws cs)"
      using False split_ws_nonempty [of cs] by (cases "split_ws cs") auto
    show ?thesis
      using False ih len words_from_flag [of cs] by (cases cs) auto
  qed
qed

lemma trim_ends:
  assumes "trim s \<noteq> []"
  shows "\<not> isSpace (hd (trim s))" and "\<not> isSpace (last (trim s))"
proof -
  let ?u = "dropWhile isSpace s"
  let ?v = "dropWhile isSpace (rev ?u)"
  have v: "?v \<noteq> []" using assms by (simp add: trim_def)
  then have "\<not> isSpace (hd ?v)" by (rule hd_dropWhile)
  then show "\<not> isSpace (last (trim s))" using v by (simp add: trim_def last_rev)
  have "rev ?u = takeWhile isSpace (rev ?u) @ ?v" by simp
  then have "?u = rev ?v @ rev (takeWhile isSpace (rev ?u))"
    by (metis rev_append rev_rev_ident)
  then have "hd ?u = hd (rev ?v)" using v by (metis hd_append2 rev_is_Nil_conv)
  moreover have "?u \<noteq> []" using v by (metis dropWhile.simps(1) rev.simps(1))
  then have "\<not> isSpace (hd ?u)" by (rule hd_dropWhile)
  ultimately show "\<not> isSpace (hd (trim s))" by (simp add: trim_def)
qed

lemma word_count_trim: "word_count (trim s) = word_count s"
proof -
  let ?u = "dropWhile isSpace s"
  have "rev ?u = takeWhile isSpace (rev ?u) @ dropWhile isSpace (rev ?u)" by simp
  then have u: "?u = trim s @ rev (takeWhile isSpace (rev ?u))"
    unfolding trim_def by (metis rev_append rev_rev_ident)
  have "\<forall>c \<in> set (rev (takeWhile isSpace (rev ?u))). isSpace c"
    by (auto dest: set_takeWhileD)
  then have "words_from True (trim s @ rev (takeWhile isSpace (rev ?u))) = words_from True (trim s)"
    by (rule words_from_spaces)
  with u have "words_from True ?u = words_from True (trim s)" by simp
  then show ?thesis by (simp add: word_count_def words_from_dropWhile)
qed

lemma numberOfWords_word_count: "numberOfWords s = max 1 (word_count s)"
proof (cases "trim s = []")
  case True
  then have "word_count (trim s) = 0" by (simp add: word_count_def)
  then have "word_count s = 0" by (simp add: word_count_trim)
  with True show ?thesis by (simp add: numberOfWords_def)
next
  case False
  have "0 < words_from True (trim s)"
    using False trim_ends(1) [OF False] by (cases "trim s") auto
  moreover have "length (split_ws (trim s)) = words_from True (trim s)"
    using False trim_ends [OF False] by (simp add: length_split_ws)
  ultimately show ?thesis
    using word_count_trim [of s] by (simp add: numberOfWords_def word_count_def)
qed




lemma blogs_readTime:
  assumes "blogs_transform compile d = Inr r"
  shows "readTimeInMinutes r = ceil_div (numberOfWords (content d)) 200"
  using assms by (auto simp: blogs_transform_def Let_def split: sum.splits)


lemma words_from_word: "words_from True (str ''word '' @ s) = Suc (words_from True s)"
  by (simp add: str_def isSpace_def)

lemma word_count_replicate: "word_count (concat (replicate n (str ''word ''))) = n"
  by (induction n) (simp_all add: word_count_def words_from_word del: replicate.simps, simp_all add: words_from_word)


section \<open>The post \<^verbatim>\<open>content/blog/vi/my-post.mdx\<close>\<close>

text \<open>
  The slug of the compiled post is the path inside the collection directory after a
  \<^verbatim>\<open>/\<close>: \<^verbatim>\<open>/vi/my-post\<close>, without the name of the collection.
\<close>

theorem my_post_slug_counterexample:
  "map_sum id slug (blogs_transform compile_ok my_post) = Inr (str ''/vi/my-post'') \<and>
   map_sum id slug (blogs_transform compile_ok my_post) \<noteq> Inr (str ''/blog/vi/my-post'')"
  by (simp add: blogs_transform_def compile_ok_def my_post_def blog_at_def Let_def
      normalize_separators_def slash_def backslash_def str_def)

text \<open>
  Claim C1, as amended. A blog document at \<^verbatim>\<open>content/blog/vi/my-post.mdx\<close> (path
  \<^verbatim>\<open>vi/my-post\<close>) with \<^verbatim>\<open>author_id: "huynhsang"\<close> and a body of exactly 400 words compiles
  to a record with slug \<^verbatim>\<open>/vi/my-post\<close>, a reading time of 2 minutes and the author name
  \<^verbatim>\<open>Hu\u1EF3nh Sang\<close>.
\<close>

theorem my_post_compiled:
  assumes "blogs_transform compile d = Inr r"
    and "path (meta d) = str ''vi/my-post''"
    and "author_id d = Some (str ''huynhsang'')"
    and "word_count (content d) = 400"
  shows "slug r = str ''/vi/my-post'' \<and> readTimeInMinutes r = 2 \<and>
         au_name (author r) = Some (str ''Hu'' @ [0x1EF3] @ str ''nh Sang'')"
proof -
  have "slug r = slash # normalize_separators (path (meta d))"
    using assms(1) by (auto simp: blogs_transform_def Let_def split: sum.splits)
  then have s: "slug r = str ''/vi/my-post''"
    by (simp add: assms(2) normalize_separators_def slash_def backslash_def str_def)
  have t: "readTimeInMinutes r = 2"
    using blogs_readTime [OF assms(1)] assms(4)
    by (simp add: numberOfWords_word_count ceil_div_def)
  have "author r = resolve_author blogConfig_authors (blog_locale (directory (meta d))) (author_id d)"
    using assms(1) by (auto simp: blogs_transform_def Let_def split: sum.splits)
  then have "au_name (author r) = Some (str ''Hu'' @ [0x1EF3] @ str ''nh Sang'')"
    by (simp add: assms(3) resolve_author_def blogConfig_authors_def)
  with s t show ?thesis by simp
qed

text \<open>The post with a body of 400 times \<^verbatim>\<open>word\<close>.\<close>

theorem my_post_compiled_witness:
  "\<exists>r. blogs_transform compile_ok my_post = Inr r \<and>
     path (meta my_post) = str ''vi/my-post'' \<and>
     author_id my_post = Some (str ''huynhsang'') \<and>
     word_count (content my_post) = 400 \<and>
     slug r = str ''/vi/my-post'' \<and> readTimeInMinutes r = 2 \<and>
     au_name (author r) = Some (str ''Hu'' @ [0x1EF3] @ str ''nh Sang'')"
proof -
  obtain r where r: "blogs_transform compile_ok my_post = Inr r"
    using blogs_compile_ok by blast
  have p: "path (meta my_post) = str ''vi/my-post''"
    by (simp add: my_post_def blog_at_def slash_def str_def)
  have a: "author_id my_post = Some (str ''huynhsang'')"
    by (simp add: my_post_def blog_at_def)
  have w: "word_count (content my_post) = 400"
    by (simp add: my_post_def blog_at_def word_count_replicate)
  from my_post_compiled [OF r p a w] r p a w show ?thesis by simp
qed

section \<open>Positions and passes\<close>

text \<open>
  Each pass that can throw returns a tree on the trees named above, and what it leaves at a
  position of the tree is what its visitor made of the node that stood there: same tag name,
  properties and fields as the visitor's result.
\<close>

lemma subtree_at_snoc:
  "subtree_at n (pos @ [i]) =
     (case subtree_at n pos of
        None \<Rightarrow> None
      | Some c \<Rightarrow> if i < length (children c) then Some (children c ! i) else None)"
  by (induction pos arbitrary: n) auto

lemma npm_visitor_children: "rehypeNpmCommand_visitor n = Inr v \<Longrightarrow> children v = children n"
  by (cases n) (auto split: if_splits jsval.splits)

lemma npm_visitor_element:
  "rehypeNpmCommand_visitor (Element tag p m ch) = Inr v \<Longrightarrow> \<exists>p'. v = Element tag p' m ch"
  by (auto split: if_splits jsval.splits)

lemma rehypeNpmCommand_root:
  assumes "rehypeNpmCommand n = Inr n'"
  shows "\<exists>v. rehypeNpmCommand_visitor n = Inr v \<and> tagName n' = tagName v \<and>
           node_properties n' = node_properties v \<and> node_annotations n' = node_annotations v \<and>
           rehypeNpmCommand_children (children n) = Inr (children n')"
proof -
  obtain v where v: "rehypeNpmCommand_visitor n = Inr v"
    using assms by (auto simp: rehypeNpmCommand.simps(1) [of n] split: sum.splits)
  have "tagName n' = tagName v \<and> node_properties n' = node_properties v \<and>
        node_annotations n' = node_annotations v \<and>
        rehypeNpmCommand_children (children v) = Inr (children n')"
    using assms v
    by (auto simp: rehypeNpmCommand.simps(1) [of n] split: sum.splits node.splits)
  with v npm_visitor_children [OF v] show ?thesis by auto
qed

lemma rehypeNpmCommand_children_nth:
  "rehypeNpmCommand_children cs = Inr cs' \<Longrightarrow>
     length cs' = length cs \<and> (\<forall>i < length cs. rehypeNpmCommand (cs ! i) = Inr (cs' ! i))"
proof (induction cs arbitrary: cs')
  case Nil
  then show ?case by simp
next
  case (Cons c cs)
  from Cons.prems obtain c' cs'' where c: "rehypeNpmCommand c = Inr c'"
    and cs: "rehypeNpmCommand_children cs = Inr cs''" and e: "cs' = c' # cs''"
    by (auto split: sum.splits)
  from Cons.IH [OF cs] c e show ?case
    by (auto simp: nth_Cons split: nat.splits)
qed

lemma rehypeNpmCommand_at:
  assumes "rehypeNpmCommand t = Inr t'" and "subtree_at t pos = Some n"
  shows "\<exists>n' v. subtree_at t' pos = Some n' \<and> rehypeNpmCommand_visitor n = Inr v \<and>
           tagName n' = tagName v \<and> node_properties n' = node_properties v \<and>
           node_annotations n' = node_annotations v"
  using assms
proof (induction pos arbitrary: t t')
  case Nil
  then show ?case using rehypeNpmCommand_root [of t t'] by auto
next
  case (Cons i pos)
  from Cons.prems(2) have i: "i < length (children t)"
    and s: "subtree_at (children t ! i) pos = Some n"
    by (auto split: if_splits)
  from rehypeNpmCommand_root [OF Cons.prems(1)]
  have "rehypeNpmCommand_children (children t) = Inr (children t')" by blast
  from rehypeNpmCommand_children_nth [OF this] i
  have l: "i < length (children t')" and c: "rehypeNpmCommand (children t ! i) = Inr (children t' ! i)"
    by auto
  from Cons.IH [OF c s] l show ?case by simp
qed

lemma rehypeNpmCommand_children_total:
  "(\<And>c. c \<in> set cs \<Longrightarrow> \<exists>c'. rehypeNpmCommand c = Inr c') \<Longrightarrow> \<exists>cs'. rehypeNpmCommand_children cs = Inr cs'"
proof (induction cs)
  case Nil
  show ?case by simp
next
  case (Cons c cs)
  then obtain c' cs' where "rehypeNpmCommand c = Inr c'" "rehypeNpmCommand_children cs = Inr cs'"
    by (meson list.set_intros)
  then show ?case by simp
qed

lemma rehypeNpmCommand_total: "no_boolean_raw t \<Longrightarrow> \<exists>t'. rehypeNpmCommand t = Inr t'"
proof (induction t)
  case (Element tag p m ch)
  then have "\<And>c. c \<in> set ch \<Longrightarrow> \<exists>c'. rehypeNpmCommand c = Inr c'"
    by (auto simp: list_all_iff)
  then obtain ch' where ch: "rehypeNpmCommand_children ch = Inr ch'"
    using rehypeNpmCommand_children_total by blast
  have "\<exists>v. rehypeNpmCommand_visitor (Element tag p m ch) = Inr v"
    using Element.prems by (cases "rawString p") auto
  then obtain v where v: "rehypeNpmCommand_visitor (Element tag p m ch) = Inr v" ..
  from npm_visitor_element [OF v] obtain p' where "v = Element tag p' m ch" ..
  with v ch show ?case
    by (simp add: rehypeNpmCommand.simps(1) [of "Element tag p m ch"])
next
  case (Literal kind v)
  show ?case by (simp add: rehypeNpmCommand.simps(1))
next
  case (Parent kind ch)
  then have "\<And>c. c \<in> set ch \<Longrightarrow> \<exists>c'. rehypeNpmCommand c = Inr c'"
    by (auto simp: list_all_iff)
  then obtain ch' where ch: "rehypeNpmCommand_children ch = Inr ch'"
    using rehypeNpmCommand_children_total by blast
  then show ?case by (simp add: rehypeNpmCommand.simps(1))
qed

section \<open>Package-manager variants\<close>

lemma startsWith_iff: "startsWith s p \<longleftrightarrow> (\<exists>t. s = p @ t)"
proof
  assume "startsWith s p"
  then have "s = p @ drop (length p) s"
    by (metis append_take_drop_id startsWith_def)
  then show "\<exists>t. s = p @ t" ..
next
  assume "\<exists>t. s = p @ t"
  then show "startsWith s p" by (auto simp: startsWith_def)
qed

lemma replace_first_prefix:
  "startsWith s pat \<Longrightarrow> replace_first pat rep s = rep @ drop (length pat) s"
  by (cases s) (auto simp: startsWith_def)

lemma npm_not_npx: "startsWith raw (str ''npm i'') \<Longrightarrow> \<not> startsWith raw (str ''npx'')"
  by (auto simp: startsWith_iff str_def)

lemma create_is_npx: "startsWith raw (str ''npx create-'') \<Longrightarrow> startsWith raw (str ''npx'')"
  by (auto simp: startsWith_iff str_def)

lemma npx_not_npm: "startsWith raw (str ''npx'') \<Longrightarrow> \<not> startsWith raw (str ''npm i'')"
  by (auto simp: startsWith_iff str_def)

lemma variants_npm_install:
  assumes "startsWith raw (str ''npm i'')"
  shows "npx_variants raw (npx_create_variants raw (npm_install_variants raw p)) =
     p\<lparr> npmCommand := Str raw,
        yarnCommand := Str (str ''yarn add'' @ drop 5 raw),
        pnpmCommand := Str (str ''pnpm add'' @ drop 5 raw),
        bunCommand := Str (str ''bun add'' @ drop 5 raw) \<rparr>"
proof -
  have n: "\<not> startsWith raw (str ''npx'')" "\<not> startsWith raw (str ''npx create-'')"
    using assms npm_not_npx create_is_npx by blast+
  have l: "length (str ''npm i'') = 5" by (simp add: str_def)
  show ?thesis
    using assms n by (simp add: npx_variants_def npx_create_variants_def npm_install_variants_def
        replace_first_prefix l)
qed

lemma variants_npx_create:
  assumes "startsWith raw (str ''npx create-'')"
  shows "npx_variants raw (npx_create_variants raw (npm_install_variants raw p)) =
     p\<lparr> npmCommand := Str raw,
        yarnCommand := Str (str ''yarn create '' @ drop 11 raw),
        pnpmCommand := Str (str ''pnpm create '' @ drop 11 raw),
        bunCommand := Str (str ''bunx --bun'' @ drop 3 raw) \<rparr>"
proof -
  have x: "startsWith raw (str ''npx'')" using assms by (rule create_is_npx)
  have n: "\<not> startsWith raw (str ''npm i'')" using x by (rule npx_not_npm)
  have l: "length (str ''npx create-'') = 11" "length (str ''npx'') = 3" by (simp_all add: str_def)
  show ?thesis
    using assms n x by (simp add: npx_variants_def npx_create_variants_def npm_install_variants_def
        replace_first_prefix l)
qed

lemma variants_npx:
  assumes "startsWith raw (str ''npx'')" and "\<not> startsWith raw (str ''npx create-'')"
  shows "npx_variants raw (npx_create_variants raw (npm_install_variants raw p)) =
     p\<lparr> npmCommand := Str raw,
        yarnCommand := Str raw,
        pnpmCommand := Str (str ''pnpm dlx'' @ drop 3 raw),
        bunCommand := Str (str ''bunx --bun'' @ drop 3 raw) \<rparr>"
proof -
  have n: "\<not> startsWith raw (str ''npm i'')" using assms(1) by (rule npx_not_npm)
  have l: "length (str ''npx'') = 3" by (simp_all add: str_def)
  show ?thesis
    using assms n by (simp add: npx_variants_def npx_create_variants_def npm_install_variants_def
        replace_first_prefix l)
qed

lemma variants_none:
  assumes "\<not> startsWith raw (str ''npm i'')" and "\<not> startsWith raw (str ''npx'')"
  shows "npx_variants raw (npx_create_variants raw (npm_install_variants raw p)) = p"
  using assms create_is_npx
  by (auto simp add: npx_variants_def npx_create_variants_def npm_install_variants_def)

text \<open>The three \<^verbatim>\<open>if\<close> statements of the visitor compute the table.\<close>

lemma npm_visitor_variants:
  assumes "rehypeNpmCommand_visitor (Element (str ''pre'') p m ch) = Inr v"
  shows "v = Element (str ''pre'') (variants_by_prefix p) m ch"
proof (cases "rawString p")
  case Undefined
  with assms show ?thesis by (simp add: variants_by_prefix_def)
next
  case (Bool b)
  with assms show ?thesis by simp
next
  case (Str raw)
  have "npx_variants raw (npx_create_variants raw (npm_install_variants raw p)) = variants_by_prefix p"
  proof (cases "startsWith raw (str ''npm i'')")
    case True
    then show ?thesis by (simp add: variants_npm_install variants_by_prefix_def Str)
  next
    case False
    then show ?thesis
      using create_is_npx [of raw]
      by (auto simp: variants_npx_create variants_npx variants_none variants_by_prefix_def Str)
  qed
  with assms Str show ?thesis by simp
qed

lemma element_from_parts:
  assumes "tagName n' = Some tag" and "node_properties n' = Some q" and "node_annotations n' = Some m"
  shows "\<exists>ch'. n' = Element tag q m ch'"
  using assms by (cases n') auto

text \<open>
  Claim C5, as amended. On a tree with no boolean \<^verbatim>\<open>__rawString__\<close> the pass
  \<^verbatim>\<open>rehypeNpmCommand\<close> returns a tree, and at the position of every \<^verbatim>\<open>pre\<close> element it
  leaves a \<^verbatim>\<open>pre\<close> with the properties of the table \<open>variants_by_prefix\<close>: for a raw string
  that starts with \<^verbatim>\<open>npm i\<close>, \<^verbatim>\<open>__npmCommand__\<close> is the raw string and the prefix becomes
  \<^verbatim>\<open>yarn add\<close>, \<^verbatim>\<open>pnpm add\<close> and \<^verbatim>\<open>bun add\<close>; for \<^verbatim>\<open>npx create-\<close>, the prefix becomes
  \<^verbatim>\<open>yarn create \<close> and \<^verbatim>\<open>pnpm create \<close>, and for bun only the leading \<^verbatim>\<open>npx\<close> becomes
  \<^verbatim>\<open>bunx --bun\<close>; for any other \<^verbatim>\<open>npx\<close>, the yarn command is the raw string and \<^verbatim>\<open>npx\<close>
  becomes \<^verbatim>\<open>pnpm dlx\<close> and \<^verbatim>\<open>bunx --bun\<close>. A \<^verbatim>\<open>pre\<close> with another raw string, or with none,
  keeps its properties.
\<close>

theorem package_manager_variants:
  assumes "no_boolean_raw t"
    and "subtree_at t pos = Some (Element (str ''pre'') p m ch)"
  shows "\<exists>t' ch'. rehypeNpmCommand t = Inr t' \<and>
     subtree_at t' pos = Some (Element (str ''pre'') (variants_by_prefix p) m ch')"
proof -
  obtain t' where t': "rehypeNpmCommand t = Inr t'"
    using rehypeNpmCommand_total [OF assms(1)] ..
  from rehypeNpmCommand_at [OF t' assms(2)] obtain n' v
    where n': "subtree_at t' pos = Some n'"
      and v: "rehypeNpmCommand_visitor (Element (str ''pre'') p m ch) = Inr v"
      and same: "tagName n' = tagName v" "node_properties n' = node_properties v"
        "node_annotations n' = node_annotations v"
    by blast
  have "v = Element (str ''pre'') (variants_by_prefix p) m ch"
    using v by (rule npm_visitor_variants)
  with element_from_parts [of n' "str ''pre''" "variants_by_prefix p" m] same
  obtain ch' where "n' = Element (str ''pre'') (variants_by_prefix p) m ch'" by auto
  with t' n' show ?thesis by blast
qed

lemmas node_eval = pre_with_raw_def no_properties_def no_annotations_def fence_def
  page_def text_block_def commands_page_def captured_fence_def highlighted_fence_def

lemma commands_page_safe: "no_boolean_raw commands_page"
  by (simp add: node_eval)

lemma variants_examples:
  "variants_by_prefix (no_properties\<lparr> rawString := Str (str ''npm i react'') \<rparr>) =
        no_properties\<lparr> rawString := Str (str ''npm i react''),
            npmCommand := Str (str ''npm i react''),
            yarnCommand := Str (str ''yarn add react''),
            pnpmCommand := Str (str ''pnpm add react''),
            bunCommand := Str (str ''bun add react'') \<rparr>"
  "variants_by_prefix (no_properties\<lparr> rawString := Str (str ''npx create-next-app'') \<rparr>) =
        no_properties\<lparr> rawString := Str (str ''npx create-next-app''),
            npmCommand := Str (str ''npx create-next-app''),
            yarnCommand := Str (str ''yarn create next-app''),
            pnpmCommand := Str (str ''pnpm create next-app''),
            bunCommand := Str (str ''bunx --bun create-next-app'') \<rparr>"
  "variants_by_prefix (no_properties\<lparr> rawString := Str (str ''npx degit a b'') \<rparr>) =
        no_properties\<lparr> rawString := Str (str ''npx degit a b''),
            npmCommand := Str (str ''npx degit a b''),
            yarnCommand := Str (str ''npx degit a b''),
            pnpmCommand := Str (str ''pnpm dlx degit a b''),
            bunCommand := Str (str ''bunx --bun degit a b'') \<rparr>"
  "variants_by_prefix (no_properties\<lparr> rawString := Str (str ''ls -la'') \<rparr>) =
        no_properties\<lparr> rawString := Str (str ''ls -la'') \<rparr>"
  by (simp_all add: variants_by_prefix_def startsWith_def str_def)


text \<open>A page with one command of each kind below its root.\<close>

theorem package_manager_variants_witness:
  "no_boolean_raw commands_page \<and>
   (\<exists>t' c1 c2 c3 c4.
      rehypeNpmCommand commands_page = Inr t' \<and>
      subtree_at t' [1] = Some (Element (str ''pre'')
        (no_properties\<lparr> rawString := Str (str ''npm i react''),
            npmCommand := Str (str ''npm i react''),
            yarnCommand := Str (str ''yarn add react''),
            pnpmCommand := Str (str ''pnpm add react''),
            bunCommand := Str (str ''bun add react'') \<rparr>) no_annotations c1) \<and>
      subtree_at t' [2] = Some (Element (str ''pre'')
        (no_properties\<lparr> rawString := Str (str ''npx create-next-app''),
            npmCommand := Str (str ''npx create-next-app''),
            yarnCommand := Str (str ''yarn create next-app''),
            pnpmCommand := Str (str ''pnpm create next-app''),
            bunCommand := Str (str ''bunx --bun create-next-app'') \<rparr>) no_annotations c2) \<and>
      subtree_at t' [3] = Some (Element (str ''pre'')
        (no_properties\<lparr> rawString := Str (str ''npx degit a b''),
            npmCommand := Str (str ''npx degit a b''),
            yarnCommand := Str (str ''npx degit a b''),
            pnpmCommand := Str (str ''pnpm dlx degit a b''),
            bunCommand := Str (str ''bunx --bun degit a b'') \<rparr>) no_annotations c3) \<and>
      subtree_at t' [4] = Some (Element (str ''pre'')
        (no_properties\<lparr> rawString := Str (str ''ls -la'') \<rparr>) no_annotations c4))"
proof -
  let ?p = "\<lambda>raw. no_properties\<lparr> rawString := Str raw \<rparr>"
  have at: "subtree_at commands_page [1] = Some (Element (str ''pre'') (?p (str ''npm i react'')) no_annotations [])"
    "subtree_at commands_page [2] = Some (Element (str ''pre'') (?p (str ''npx create-next-app'')) no_annotations [])"
    "subtree_at commands_page [3] = Some (Element (str ''pre'') (?p (str ''npx degit a b'')) no_annotations [])"
    "subtree_at commands_page [4] = Some (Element (str ''pre'') (?p (str ''ls -la'')) no_annotations [])"
    by (simp_all add: commands_page_def page_def pre_with_raw_def)
  obtain t' where t': "rehypeNpmCommand commands_page = Inr t'"
    using rehypeNpmCommand_total [OF commands_page_safe] ..
  have 1: "\<exists>c. subtree_at t' [1] = Some (Element (str ''pre'')
             (variants_by_prefix (?p (str ''npm i react''))) no_annotations c)"
    using package_manager_variants [OF commands_page_safe at(1)] t' by auto
  have 2: "\<exists>c. subtree_at t' [2] = Some (Element (str ''pre'')
             (variants_by_prefix (?p (str ''npx create-next-app''))) no_annotations c)"
    using package_manager_variants [OF commands_page_safe at(2)] t' by auto
  have 3: "\<exists>c. subtree_at t' [3] = Some (Element (str ''pre'')
             (variants_by_prefix (?p (str ''npx degit a b''))) no_annotations c)"
    using package_manager_variants [OF commands_page_safe at(3)] t' by auto
  have 4: "\<exists>c. subtree_at t' [4] = Some (Element (str ''pre'')
             (variants_by_prefix (?p (str ''ls -la''))) no_annotations c)"
    using package_manager_variants [OF commands_page_safe at(4)] t' by auto
  from 1 2 3 4 t' commands_page_safe show ?thesis
    unfolding variants_examples by blast
qed

text \<open>
  For \<^verbatim>\<open>npx create-next-app\<close> the pass sets the bun command
  \<^verbatim>\<open>bunx --bun create-next-app\<close>: it is not the raw string with its prefix \<^verbatim>\<open>npx create-\<close>
  replaced by \<^verbatim>\<open>bunx --bun\<close>.
\<close>

theorem bun_create_counterexample:
  "rehypeNpmCommand (page [pre_with_raw (Str (str ''npx create-next-app''))]) =
     Inr (page [Element (str ''pre'')
       (no_properties\<lparr> rawString := Str (str ''npx create-next-app''),
           npmCommand := Str (str ''npx create-next-app''),
           yarnCommand := Str (str ''yarn create next-app''),
           pnpmCommand := Str (str ''pnpm create next-app''),
           bunCommand := Str (str ''bunx --bun create-next-app'') \<rparr>) no_annotations []]) \<and>
   str ''bunx --bun create-next-app''
     \<noteq> str ''bunx --bun'' @ drop (length (str ''npx create-'')) (str ''npx create-next-app'')"
  by (simp add: rehypeNpmCommand.simps page_def pre_with_raw_def npx_variants_def
      npx_create_variants_def npm_install_variants_def startsWith_def str_def)

text \<open>
  Claim C10. A raw string that starts with \<^verbatim>\<open>npm install\<close> starts with \<^verbatim>\<open>npm i\<close>, so the
  pass fires at every \<^verbatim>\<open>pre\<close> element of the tree that has such a raw string: it returns a
  tree where that \<^verbatim>\<open>pre\<close> has the yarn, pnpm and bun commands made of the raw string by
  replacing its first five characters, the first occurrence of \<^verbatim>\<open>npm i\<close>; the rest,
  \<^verbatim>\<open>nstall ...\<close>, stays.
\<close>

theorem npm_install_prefix_match:
  assumes "no_boolean_raw t"
    and "subtree_at t pos = Some (Element (str ''pre'') p m ch)"
    and "rawString p = Str raw"
    and "startsWith raw (str ''npm install'')"
  shows "startsWith raw (str ''npm i'') \<and>
         (\<exists>t' ch'. rehypeNpmCommand t = Inr t' \<and>
            subtree_at t' pos =
              Some (Element (str ''pre'')
                (p\<lparr> npmCommand := Str raw,
                    yarnCommand := Str (str ''yarn add'' @ drop 5 raw),
                    pnpmCommand := Str (str ''pnpm add'' @ drop 5 raw),
                    bunCommand := Str (str ''bun add'' @ drop 5 raw) \<rparr>) m ch'))"
proof -
  have i: "startsWith raw (str ''npm i'')"
    using assms(4) by (auto simp: startsWith_iff str_def)
  obtain t' where t': "rehypeNpmCommand t = Inr t'"
    using rehypeNpmCommand_total [OF assms(1)] ..
  from rehypeNpmCommand_at [OF t' assms(2)] obtain n' v
    where n': "subtree_at t' pos = Some n'"
      and v: "rehypeNpmCommand_visitor (Element (str ''pre'') p m ch) = Inr v"
      and same: "tagName n' = tagName v" "node_properties n' = node_properties v"
        "node_annotations n' = node_annotations v"
    by blast
  have "v = Element (str ''pre'')
          (p\<lparr> npmCommand := Str raw,
              yarnCommand := Str (str ''yarn add'' @ drop 5 raw),
              pnpmCommand := Str (str ''pnpm add'' @ drop 5 raw),
              bunCommand := Str (str ''bun add'' @ drop 5 raw) \<rparr>) m ch"
    using v i assms(3) by (simp add: variants_npm_install)
  with element_from_parts [of n' "str ''pre''" _ m] same
  obtain ch' where "n' = Element (str ''pre'')
          (p\<lparr> npmCommand := Str raw,
              yarnCommand := Str (str ''yarn add'' @ drop 5 raw),
              pnpmCommand := Str (str ''pnpm add'' @ drop 5 raw),
              bunCommand := Str (str ''bun add'' @ drop 5 raw) \<rparr>) m ch'" by auto
  with t' n' i show ?thesis by blast
qed

text \<open>On the page, \<^verbatim>\<open>npm install pkg\<close> becomes \<^verbatim>\<open>yarn addnstall pkg\<close>.\<close>

theorem npm_install_prefix_match_witness:
  "no_boolean_raw commands_page \<and>
   startsWith (str ''npm install pkg'') (str ''npm install'') \<and>
   (\<exists>t' ch'. rehypeNpmCommand commands_page = Inr t' \<and>
      subtree_at t' [5] = Some (Element (str ''pre'')
       (no_properties\<lparr> rawString := Str (str ''npm install pkg''),
           npmCommand := Str (str ''npm install pkg''),
           yarnCommand := Str (str ''yarn addnstall pkg''),
           pnpmCommand := Str (str ''pnpm addnstall pkg''),
           bunCommand := Str (str ''bun addnstall pkg'') \<rparr>) no_annotations ch'))"
proof -
  have at: "subtree_at commands_page [5] = Some (Element (str ''pre'')
      (no_properties\<lparr> rawString := Str (str ''npm install pkg'') \<rparr>) no_annotations [])"
    by (simp add: commands_page_def page_def pre_with_raw_def)
  have r: "rawString (no_properties\<lparr> rawString := Str (str ''npm install pkg'') \<rparr>)
             = Str (str ''npm install pkg'')" by simp
  have s: "startsWith (str ''npm install pkg'') (str ''npm install'')"
    by (simp add: startsWith_def str_def)
  from npm_install_prefix_match [OF commands_page_safe at r s]
  obtain t' ch' where "rehypeNpmCommand commands_page = Inr t'"
    and "subtree_at t' [5] = Some (Element (str ''pre'')
       (no_properties\<lparr> rawString := Str (str ''npm install pkg''),
           npmCommand := Str (str ''npm install pkg''),
           yarnCommand := Str (str ''yarn add'' @ drop 5 (str ''npm install pkg'')),
           pnpmCommand := Str (str ''pnpm add'' @ drop 5 (str ''npm install pkg'')),
           bunCommand := Str (str ''bun add'' @ drop 5 (str ''npm install pkg'')) \<rparr>) no_annotations ch')"
    by blast
  then have "rehypeNpmCommand commands_page = Inr t' \<and>
      subtree_at t' [5] = Some (Element (str ''pre'')
       (no_properties\<lparr> rawString := Str (str ''npm install pkg''),
           npmCommand := Str (str ''npm install pkg''),
           yarnCommand := Str (str ''yarn addnstall pkg''),
           pnpmCommand := Str (str ''pnpm addnstall pkg''),
           bunCommand := Str (str ''bun addnstall pkg'') \<rparr>) no_annotations ch')"
    by (simp add: str_def)
  with commands_page_safe s show ?thesis by blast
qed

section \<open>Raw source across highlighting\<close>








lemma hoist_visitor_keeps:
  "tagName (hoist_visitor n) = tagName n"
  "node_properties (hoist_visitor n) = node_properties n"
  "node_annotations (hoist_visitor n) = node_annotations n"
  "length (children (hoist_visitor n)) = length (children n)"
  by (cases n; simp split: node.splits)+

lemma hoist_pass_keeps:
  "tagName (hoist_pass n) = tagName n"
  "node_properties (hoist_pass n) = node_properties n"
  "node_annotations (hoist_pass n) = node_annotations n"
  using hoist_visitor_keeps [of n]
  by (auto simp add: hoist_pass.simps [of n] split: node.splits)

lemma hoist_pass_children:
  "children (hoist_pass n) = map hoist_pass (children (hoist_visitor n))"
  by (simp add: hoist_pass.simps [of n] split: node.splits)

lemma hoist_visitor_alike: "alike a b \<Longrightarrow> children (hoist_visitor a) = children (hoist_visitor b)"
  by (cases a; cases b) (auto simp: alike_def split: node.splits)

lemma alike_subtree: "alike a b \<Longrightarrow> pos \<noteq> [] \<Longrightarrow> subtree_at a pos = subtree_at b pos"
  by (cases pos) (auto simp: alike_def)

lemma hoist_visitor_last:
  assumes "w \<noteq> []" and "ch \<noteq> []" and "last ch = Element (str ''pre'') pp pm pch"
  shows "children (hoist_visitor (Element w wp wm ch)) =
           butlast ch @ [Element (str ''pre'') (hoisted (hd ch) wm pp) pm pch]"
  using assms by simp

lemma hoist_visitor_child_alike:
  assumes "i < length (children n)"
  shows "alike (children (hoist_visitor n) ! i) (children n ! i)"
proof (cases "children (hoist_visitor n) = children n")
  case True
  then show ?thesis by (simp add: alike_def)
next
  case False
  then obtain w wp wm ch pp pm pch where n: "n = Element w wp wm ch"
    and c: "w \<noteq> []" "ch \<noteq> []" "last ch = Element (str ''pre'') pp pm pch"
    by (cases n) (auto split: node.splits if_splits)
  have h: "children (hoist_visitor n) = butlast ch @ [Element (str ''pre'') (hoisted (hd ch) wm pp) pm pch]"
    unfolding n using c by (rule hoist_visitor_last)
  have cn: "children n = ch" by (simp add: n)
  show ?thesis
  proof (cases "i < length ch - 1")
    case True
    then show ?thesis by (simp add: h cn nth_append nth_butlast alike_def)
  next
    case False
    with assms cn have i: "i = length ch - 1" by simp
    then have "ch ! i = Element (str ''pre'') pp pm pch"
      using c by (simp add: last_conv_nth)
    then show ?thesis using i by (simp add: h cn nth_append alike_def)
  qed
qed

lemma hoist_pass_at:
  assumes "subtree_at h pos = Some n"
  shows "\<exists>n0. alike n0 n \<and> subtree_at (hoist_pass h) pos = Some (hoist_pass n0)"
  using assms
proof (induction pos arbitrary: h)
  case Nil
  then show ?case by (auto simp: alike_def)
next
  case (Cons i pos)
  from Cons.prems have i: "i < length (children h)"
    and s: "subtree_at (children h ! i) pos = Some n"
    by (auto split: if_splits)
  let ?c = "children (hoist_visitor h) ! i"
  have a: "alike ?c (children h ! i)" using i by (rule hoist_visitor_child_alike)
  have l: "i < length (children (hoist_visitor h))" using i by (simp add: hoist_visitor_keeps)
  have step: "subtree_at (hoist_pass h) (i # pos) = subtree_at (hoist_pass ?c) pos"
    using l by (simp add: hoist_pass_children)
  show ?case
  proof (cases "pos = []")
    case True
    with s have "n = children h ! i" by simp
    with a step True show ?thesis by auto
  next
    case False
    with a s have "subtree_at ?c pos = Some n" by (simp add: alike_subtree)
    from Cons.IH [OF this] step show ?thesis by simp
  qed
qed

lemma hoist_pass_child:
  assumes "subtree_at h pos = Some n" and "i < length (children n)"
  shows "\<exists>c. subtree_at (hoist_pass h) (pos @ [i]) = Some c \<and>
           tagName c = tagName (children (hoist_visitor n) ! i) \<and>
           node_properties c = node_properties (children (hoist_visitor n) ! i) \<and>
           node_annotations c = node_annotations (children (hoist_visitor n) ! i)"
proof -
  from hoist_pass_at [OF assms(1)] obtain n0 where a: "alike n0 n"
    and s: "subtree_at (hoist_pass h) pos = Some (hoist_pass n0)" by blast
  have c: "children (hoist_pass n0) = map hoist_pass (children (hoist_visitor n))"
    using hoist_visitor_alike [OF a] by (simp add: hoist_pass_children)
  have l: "i < length (children (hoist_visitor n))"
    using assms(2) by (simp add: hoist_visitor_keeps)
  have "subtree_at (hoist_pass h) (pos @ [i]) = Some (hoist_pass (children (hoist_visitor n) ! i))"
    using s c l by (simp add: subtree_at_snoc)
  then show ?thesis by (simp add: hoist_pass_keeps)
qed



lemma hoist_pass_under_parent:
  assumes "subtree_at h pos = Some (Parent kind ch)" and "i < length ch"
  shows "\<exists>c. subtree_at (hoist_pass h) (pos @ [i]) = Some c \<and>
           tagName c = tagName (ch ! i) \<and> node_properties c = node_properties (ch ! i)"
  using hoist_pass_child [OF assms(1), of i] assms(2) by auto






end
